theory Spec2Isabelle
  imports Complex_Main
begin

unbundle bit_operations_syntax

section \<open>Python and numpy values\<close>

text \<open>
  The repository is Python over numpy. Python integers are unbounded and are modelled as
  \<open>int\<close>; \<open>//\<close> and \<open>%\<close> round towards minus infinity, as \<open>div\<close> and \<open>mod\<close> on \<open>int\<close> do.
  One-dimensional numpy arrays are lists. Exceptions are values of the type \<open>error\<close>; a
  function that may raise returns \<open>error + 'a\<close>, with \<open>Inl\<close> for the exception.
  Floating-point samples are idealised as the real and complex numbers of HOL, and what is
  stated about them does not depend on rounding. The exception is
  \<open>normalized_cross_correlation\<close>, whose result is a number: its values are exact, and the one
  float64 effect that changes its branch, the underflow of a square to 0, is modelled.
\<close>

datatype error = ValueError string | IndexError

text \<open>\<open>np.zeros(n)\<close>: a negative dimension raises \<open>ValueError\<close>.\<close>

definition np_zeros :: "int \<Rightarrow> error + ('a::zero) list" where
  "np_zeros n =
     (if n < 0 then Inl (ValueError ''negative dimensions are not allowed'')
      else Inr (replicate (nat n) 0))"

text \<open>An exception of the first computation leaves the function; its value goes on otherwise.\<close>

definition bind_err :: "error + 'a \<Rightarrow> ('a \<Rightarrow> error + 'b) \<Rightarrow> error + 'b" where
  "bind_err m f = (case m of Inl e \<Rightarrow> Inl e | Inr x \<Rightarrow> f x)"

text \<open>
  Integer indexing of an array: a negative index counts from the end, and an index outside
  \<open>[-size, size)\<close> raises \<open>IndexError\<close>.
\<close>

definition np_index :: "'a list \<Rightarrow> int \<Rightarrow> error + nat" where
  "np_index xs i =
     (let n = int (length xs); j = (if i < 0 then i + n else i)
      in if 0 \<le> j \<and> j < n then Inr (nat j) else Inl IndexError)"

definition np_getitem :: "'a list \<Rightarrow> int \<Rightarrow> error + 'a" where
  "np_getitem xs i = (case np_index xs i of Inl e \<Rightarrow> Inl e | Inr j \<Rightarrow> Inr (xs ! j))"

definition np_setitem :: "'a list \<Rightarrow> int \<Rightarrow> 'a \<Rightarrow> error + 'a list" where
  "np_setitem xs i v = (case np_index xs i of Inl e \<Rightarrow> Inl e | Inr j \<Rightarrow> Inr (xs[j := v]))"

text \<open>\<open>range(a, b)\<close>, and the slices \<open>xs[k:]\<close> and \<open>xs[:k]\<close> (a negative bound counts from the end).\<close>

definition py_range :: "int \<Rightarrow> int \<Rightarrow> int list" where
  "py_range a b = [a..b - 1]"

definition slice_from :: "'a list \<Rightarrow> int \<Rightarrow> 'a list" where
  "slice_from xs k = (if 0 \<le> k then drop (nat k) xs else drop (nat (int (length xs) + k)) xs)"

definition slice_to :: "'a list \<Rightarrow> int \<Rightarrow> 'a list" where
  "slice_to xs k = (if 0 \<le> k then take (nat k) xs else take (nat (int (length xs) + k)) xs)"

text \<open>\<open>str(i)\<close> of an integer, as an f-string renders it: decimal digits, \<open>-\<close> when negative.\<close>

fun str_nat :: "nat \<Rightarrow> string" where
  "str_nat n =
     (if n < 10 then [char_of (48 + n)]
      else str_nat (n div 10) @ [char_of (48 + n mod 10)])"

declare str_nat.simps [simp del]

definition py_str_int :: "int \<Rightarrow> string" where
  "py_str_int i = (if i < 0 then CHR ''-'' # str_nat (nat (- i)) else str_nat (nat i))"

section \<open>config.py\<close>

text \<open>
  The three frozen dataclasses. \<open>cyclic_shift\<close> is a float, here a real; \<open>n_zc\<close> is
  \<open>Optional[int]\<close>. The fields of \<open>MappingInfo\<close> carry the prefix \<open>info_\<close>, since \<open>alpha\<close> is also
  a property of \<open>SRSConfig\<close> and the other names are those of local variables.
\<close>

record SRSConfig =
  cell_id :: int
  bandwidth_config :: int
  subframe_config :: int
  b_hop :: int
  group_hopping_enabled :: bool
  sequence_hopping_enabled :: bool
  transmission_comb :: int
  cyclic_shift :: real
  srs_bandwidth :: int
  n_ul_rb :: int
  n_zc :: "int option"

record HoppingState =
  group_number :: int
  sequence_number :: int
  f_gh :: int
  f_ss :: int

record MappingInfo =
  info_subframe_index :: int
  info_slot_index :: int
  info_root_index :: int
  info_alpha :: real
  info_m_sc :: int
  info_comb :: int
  info_n_fft :: int
  info_k0 :: int
  info_hopping :: HoppingState

text \<open>\<open>SRSConfig.__post_init__\<close>: the checks of the constructor, in the order of the source.\<close>

definition post_init :: "SRSConfig \<Rightarrow> error + unit" where
  "post_init self =
     (if \<not> (0 \<le> cell_id self \<and> cell_id self \<le> 503) then
        Inl (ValueError ''cell_id must be between 0 and 503'')
      else if transmission_comb self \<notin> {0, 1} then
        Inl (ValueError ''transmission_comb (k_tc) must be 0 or 1'')
      else if bandwidth_config self < 0 then
        Inl (ValueError ''bandwidth_config (B_srs) must be non-negative'')
      else if subframe_config self < 0 then
        Inl (ValueError ''subframe_config (T_srs) must be non-negative'')
      else if b_hop self < 0 then
        Inl (ValueError ''b_hop must be non-negative'')
      else if srs_bandwidth self < 0 then
        Inl (ValueError ''srs_bandwidth (N_b) must be non-negative'')
      else if n_ul_rb self \<le> 0 then
        Inl (ValueError ''n_ul_rb must be positive'')
      else Inr ())"

text \<open>A valid Configuration is one whose construction did not raise.\<close>

definition valid_config :: "SRSConfig \<Rightarrow> bool" where
  "valid_config self = (post_init self = Inr ())"

definition is_active_subframe :: "SRSConfig \<Rightarrow> int \<Rightarrow> bool" where
  "is_active_subframe self subframe =
     (if subframe_config self = 0 then False
      else subframe mod subframe_config self = 0)"

definition alpha :: "SRSConfig \<Rightarrow> real" where
  "alpha self = cyclic_shift self"

definition zc_length :: "SRSConfig \<Rightarrow> int" where
  "zc_length self = (case n_zc self of None \<Rightarrow> 839 | Some n \<Rightarrow> n)"

definition bandwidth_in_subcarriers :: "SRSConfig \<Rightarrow> int" where
  "bandwidth_in_subcarriers self =
     (let scaling = 2 ^ nat (max (bandwidth_config self) 0);
          raw = (srs_bandwidth self + 1) * 12 * scaling;
          max_sc = n_ul_rb self * 12
      in min raw max_sc)"

definition comb_spacing :: "SRSConfig \<Rightarrow> int" where
  "comb_spacing self = 2"

section \<open>sequences.py\<close>

subsection \<open>generate_prs\<close>

text \<open>The loop \<open>for n in range(1, length + 31): x1[n] = (x1[n - 3] + x1[n - 31]) % 2\<close>.\<close>

fun x1_loop :: "int list \<Rightarrow> int list \<Rightarrow> error + int list" where
  "x1_loop x1 [] = Inr x1"
| "x1_loop x1 (n # ns) =
     bind_err (np_getitem x1 (n - 3)) (\<lambda>a.
     bind_err (np_getitem x1 (n - 31)) (\<lambda>b.
     bind_err (np_setitem x1 n ((a + b) mod 2)) (\<lambda>x1'.
     x1_loop x1' ns)))"

text \<open>The loop \<open>for n in range(31): x2[n] = (c_init >> n) & 1\<close>.\<close>

fun x2_init_loop :: "int \<Rightarrow> int list \<Rightarrow> int list \<Rightarrow> error + int list" where
  "x2_init_loop c_init x2 [] = Inr x2"
| "x2_init_loop c_init x2 (n # ns) =
     bind_err (np_setitem x2 n (drop_bit (nat n) c_init AND 1)) (\<lambda>x2'.
     x2_init_loop c_init x2' ns)"

text \<open>
  The loop \<open>for n in range(31, length + 31):
  x2[n] = (x2[n - 3] + x2[n - 2] + x2[n - 1] + x2[n - 31]) % 2\<close>.
\<close>

fun x2_loop :: "int list \<Rightarrow> int list \<Rightarrow> error + int list" where
  "x2_loop x2 [] = Inr x2"
| "x2_loop x2 (n # ns) =
     bind_err (np_getitem x2 (n - 3)) (\<lambda>a.
     bind_err (np_getitem x2 (n - 2)) (\<lambda>b.
     bind_err (np_getitem x2 (n - 1)) (\<lambda>c.
     bind_err (np_getitem x2 (n - 31)) (\<lambda>d.
     bind_err (np_setitem x2 n ((a + b + c + d) mod 2)) (\<lambda>x2'.
     x2_loop x2' ns)))))"

definition generate_prs :: "int \<Rightarrow> int \<Rightarrow> error + int list" where
  "generate_prs c_init len =
     bind_err (np_zeros (len + 31)) (\<lambda>x1.
     bind_err (np_zeros (len + 31)) (\<lambda>x2.
     bind_err (np_setitem x1 0 1) (\<lambda>x1.
     bind_err (x1_loop x1 (py_range 1 (len + 31))) (\<lambda>x1.
     bind_err (x2_init_loop c_init x2 (py_range 0 31)) (\<lambda>x2.
     bind_err (x2_loop x2 (py_range 31 (len + 31))) (\<lambda>x2.
     let c = map (\<lambda>(a, b). (a + b) mod 2) (zip (slice_from x1 31) (slice_from x2 31))
     in Inr (slice_to c len)))))))"

text \<open>
  The sequences of the specification, by their recurrences: \<open>x1_spec n\<close> and
  \<open>x2_spec c_init n\<close> are the entries \<open>x1[n]\<close> and \<open>x2[n]\<close>, and \<open>prs_spec c_init n\<close> is
  output element \<open>n\<close>. A term of \<open>x1\<close> with a negative index is taken as 0.
\<close>

fun x1_spec :: "nat \<Rightarrow> int" where
  "x1_spec n =
     (if n = 0 then 1
      else if n < 3 then 0
      else (x1_spec (n - 3) + (if n < 31 then 0 else x1_spec (n - 31))) mod 2)"

declare x1_spec.simps [simp del]

fun x2_spec :: "int \<Rightarrow> nat \<Rightarrow> int" where
  "x2_spec c_init n =
     (if n < 31 then of_bool (bit c_init n)
      else (x2_spec c_init (n - 3) + x2_spec c_init (n - 2) + x2_spec c_init (n - 1)
            + x2_spec c_init (n - 31)) mod 2)"

declare x2_spec.simps [simp del]

definition prs_spec :: "int \<Rightarrow> nat \<Rightarrow> int" where
  "prs_spec c_init n = (x1_spec (n + 31) + x2_spec c_init (n + 31)) mod 2"

text \<open>The array \<open>x2\<close> between its two loops: the 31 bits of the seed, then zeros.\<close>

definition x2_seeded :: "int \<Rightarrow> nat \<Rightarrow> int" where
  "x2_seeded c_init i = (if i < 31 then of_bool (bit c_init i) else 0)"

subsection \<open>group_and_sequence_hopping\<close>

text \<open>The generator sum \<open>sum(int(c[start + i]) << i for i in range(8))\<close>, from 0.\<close>

fun hop_sum :: "int list \<Rightarrow> int \<Rightarrow> int list \<Rightarrow> int \<Rightarrow> error + int" where
  "hop_sum c start [] acc = Inr acc"
| "hop_sum c start (i # is) acc =
     bind_err (np_getitem c (start + i)) (\<lambda>v.
     hop_sum c start is (acc + push_bit (nat i) v))"

definition group_and_sequence_hopping :: "SRSConfig \<Rightarrow> int \<Rightarrow> error + HoppingState" where
  "group_and_sequence_hopping config slot_index =
     (let f_ss' = cell_id config mod 30 in
      bind_err
        (if group_hopping_enabled config then
           (let c_init = ((slot_index div 2 + 1) * (cell_id config + 1) * 2 ^ 9
                          + cell_id config) mod 2 ^ 31
            in bind_err (generate_prs c_init (8 * (slot_index + 1))) (\<lambda>c.
               let start = 8 * slot_index
               in bind_err (hop_sum c start (py_range 0 8) 0) (\<lambda>s. Inr (s mod 30))))
         else Inr 0)
        (\<lambda>f_gh'.
           let group_number' = (f_ss' + f_gh') mod 30;
               seq_shift = (if sequence_hopping_enabled config then f_gh' mod 30 else 0);
               sequence_number' = (group_number' + seq_shift) mod 30
           in Inr \<lparr>group_number = group_number', sequence_number = sequence_number',
                   f_gh = f_gh', f_ss = f_ss'\<rparr>))"

subsection \<open>generate_zadoff_chu and apply_cyclic_shift\<close>

definition generate_zadoff_chu :: "int \<Rightarrow> int \<Rightarrow> complex list" where
  "generate_zadoff_chu u N_zc =
     map (\<lambda>n. exp (- \<i> * of_real pi * of_int u * of_nat n * (of_nat n + 1) / of_int N_zc))
       [0..<nat N_zc]"

definition apply_cyclic_shift :: "complex list \<Rightarrow> real \<Rightarrow> complex list" where
  "apply_cyclic_shift seq alpha' =
     map (\<lambda>n. seq ! n * exp (\<i> * of_real alpha' * of_nat n)) [0..<length seq]"

subsection \<open>map_to_frequency_grid\<close>

text \<open>\<open>enumerate(seq)\<close>: the elements with their indices, from 0.\<close>

definition py_enumerate :: "'a list \<Rightarrow> (int \<times> 'a) list" where
  "py_enumerate xs = zip (map int [0..<length xs]) xs"

text \<open>
  The loop \<open>for m, value in enumerate(seq)\<close>, which writes \<open>value\<close> at \<open>k0 + m * spacing\<close>
  when that index is in \<open>[0, n_fft)\<close>.
\<close>

fun comb_loop ::
  "complex list \<Rightarrow> int \<Rightarrow> int \<Rightarrow> int \<Rightarrow> (int \<times> complex) list \<Rightarrow> error + complex list" where
  "comb_loop grid_shifted k0 spacing n_fft [] = Inr grid_shifted"
| "comb_loop grid_shifted k0 spacing n_fft ((m, v) # rest) =
     (let k = k0 + m * spacing in
      if 0 \<le> k \<and> k < n_fft then
        bind_err (np_setitem grid_shifted k v) (\<lambda>g. comb_loop g k0 spacing n_fft rest)
      else comb_loop grid_shifted k0 spacing n_fft rest)"

text \<open>
  The body of \<open>map_to_frequency_grid\<close> up to the call of \<open>ifftshift\<close>: the grid
  \<open>grid_shifted\<close>, with the zero frequency in the centre, and \<open>k0\<close>.
\<close>

definition comb_mapping :: "complex list \<Rightarrow> SRSConfig \<Rightarrow> int \<Rightarrow> error + (complex list \<times> int)" where
  "comb_mapping seq config n_fft =
     bind_err (np_zeros n_fft) (\<lambda>grid_shifted.
     let spacing = comb_spacing config;
         center = n_fft div 2;
         m_sc = int (length seq);
         k0 = center - (m_sc div 2) * spacing + transmission_comb config
     in bind_err (comb_loop grid_shifted k0 spacing n_fft (py_enumerate seq)) (\<lambda>grid_shifted.
        Inr (grid_shifted, k0)))"

text \<open>
  \<open>np.fft.ifftshift\<close> of a one-dimensional array is \<open>np.roll(x, -(n // 2))\<close>: element \<open>i\<close>
  of the result is element \<open>(i + n // 2) mod n\<close> of \<open>x\<close>.
\<close>

definition np_fft_ifftshift :: "'a list \<Rightarrow> 'a list" where
  "np_fft_ifftshift xs = (let k = length xs div 2 in drop k xs @ take k xs)"

definition map_to_frequency_grid ::
  "complex list \<Rightarrow> SRSConfig \<Rightarrow> int \<Rightarrow> error + (complex list \<times> int)" where
  "map_to_frequency_grid seq config n_fft =
     bind_err (comb_mapping seq config n_fft) (\<lambda>(grid_shifted, k0).
     let freq_grid = np_fft_ifftshift grid_shifted
     in Inr (freq_grid, k0))"

text \<open>The number of non-zero bins of a grid.\<close>

definition nonzero_bins :: "complex list \<Rightarrow> nat" where
  "nonzero_bins grid = length (filter (\<lambda>z. z \<noteq> 0) grid)"

subsection \<open>generate_srs\<close>

text \<open>
  \<open>np.fft.ifft\<close>: the inverse discrete Fourier transform, scaled by \<open>1 / n\<close>; an empty
  array raises \<open>ValueError\<close>.
\<close>

definition np_fft_ifft :: "complex list \<Rightarrow> error + complex list" where
  "np_fft_ifft a =
     (let n = length a in
      if n = 0 then Inl (ValueError ''Invalid number of FFT data points (0) specified.'')
      else Inr (map (\<lambda>m. (\<Sum>k<n. a ! k * exp (2 * of_real pi * \<i> * of_nat m * of_nat k / of_nat n))
                          / of_nat n) [0..<n]))"

definition inactive_message :: "int \<Rightarrow> int \<Rightarrow> string" where
  "inactive_message subframe_index T_srs =
     ''Subframe '' @ py_str_int subframe_index
       @ '' is not active for this UE (T_srs='' @ py_str_int T_srs @ '').''"

definition generate_srs :: "SRSConfig \<Rightarrow> int \<Rightarrow> int \<Rightarrow> error + (complex list \<times> MappingInfo)" where
  "generate_srs config subframe_index n_fft =
     (if \<not> is_active_subframe config subframe_index then
        Inl (ValueError (inactive_message subframe_index (subframe_config config)))
      else
        let slot_index = subframe_index * 2 in
        bind_err (group_and_sequence_hopping config slot_index) (\<lambda>hopping.
        let root_index = sequence_number hopping;
            N_zc = zc_length config;
            base_seq = generate_zadoff_chu root_index N_zc;
            m_sc = bandwidth_in_subcarriers config;
            truncated_seq = slice_to base_seq m_sc;
            shifted_seq = apply_cyclic_shift truncated_seq (alpha config)
        in bind_err (map_to_frequency_grid shifted_seq config n_fft) (\<lambda>(freq_grid, k0).
           bind_err (np_fft_ifft freq_grid) (\<lambda>time_signal.
           Inr (time_signal,
                \<lparr>info_subframe_index = subframe_index,
                 info_slot_index = slot_index,
                 info_root_index = root_index,
                 info_alpha = alpha config,
                 info_m_sc = m_sc,
                 info_comb = transmission_comb config,
                 info_n_fft = n_fft,
                 info_k0 = k0,
                 info_hopping = hopping\<rparr>)))))"

subsection \<open>normalized_cross_correlation\<close>

text \<open>
  The samples are float64. Of its rounding one effect is kept, because it decides the branch
  \<open>norm_a == 0 or norm_b == 0\<close>: a product \<open>x * x\<close> whose exact value is below \<open>2 ^ -1075\<close>, half
  of the least positive float64 number \<open>2 ^ -1074\<close>, rounds to 0 (the square of a float64 number
  is never the tie \<open>2 ^ -1075\<close> itself). Every other operation is exact, as in the rest of the
  file. \<open>2 ^ -1022\<close> is the least positive normal float64 number.
\<close>

definition f64_underflow :: real where
  "f64_underflow = 1 / 2 ^ 1075"


definition f64_square :: "real \<Rightarrow> real" where
  "f64_square x = (if x * x < f64_underflow then 0 else x * x)"

text \<open>
  \<open>np.linalg.norm\<close> of a one-dimensional complex array: the square root of
  \<open>x.real.dot(x.real) + x.imag.dot(x.imag)\<close>.
\<close>

definition np_linalg_norm :: "complex list \<Rightarrow> real" where
  "np_linalg_norm x =
     (let x_real = map Re x;
          x_imag = map Im x;
          sqnorm = (\<Sum>r\<leftarrow>x_real. f64_square r) + (\<Sum>r\<leftarrow>x_imag. f64_square r)
      in sqrt sqnorm)"






section \<open>srs_tester.py\<close>

text \<open>The first and the third configuration of \<open>build_configurations\<close>.\<close>

definition ue0 :: SRSConfig where
  "ue0 = \<lparr>cell_id = 0, bandwidth_config = 2, subframe_config = 2, b_hop = 1,
          group_hopping_enabled = True, sequence_hopping_enabled = False,
          transmission_comb = 0, cyclic_shift = 0, srs_bandwidth = 0, n_ul_rb = 50,
          n_zc = None\<rparr>"

definition ue2 :: SRSConfig where
  "ue2 = \<lparr>cell_id = 12, bandwidth_config = 2, subframe_config = 2, b_hop = 1,
          group_hopping_enabled = False, sequence_hopping_enabled = True,
          transmission_comb = 0, cyclic_shift = pi / 2, srs_bandwidth = 2, n_ul_rb = 50,
          n_zc = None\<rparr>"

text \<open>
  A valid configuration whose occupied bandwidth, 1200 subcarriers, exceeds the default
  Zadoff-Chu length 839.
\<close>

definition wide_cfg :: SRSConfig where
  "wide_cfg = \<lparr>cell_id = 0, bandwidth_config = 7, subframe_config = 2, b_hop = 1,
          group_hopping_enabled = True, sequence_hopping_enabled = False,
          transmission_comb = 0, cyclic_shift = 0, srs_bandwidth = 0, n_ul_rb = 100,
          n_zc = None\<rparr>"

section \<open>Basic facts\<close>


lemma bind_err_Inr [simp]: "bind_err (Inr x) f = f x"
  by (simp add: bind_err_def)

lemma bind_err_Inl [simp]: "bind_err (Inl e) f = Inl e"
  by (simp add: bind_err_def)

lemma np_getitem_nonneg:
  "0 \<le> i \<Longrightarrow> i < int (length xs) \<Longrightarrow> np_getitem xs i = Inr (xs ! nat i)"
  by (simp add: np_getitem_def np_index_def)

lemma np_getitem_neg:
  "i < 0 \<Longrightarrow> 0 \<le> i + int (length xs) \<Longrightarrow> np_getitem xs i = Inr (xs ! nat (i + int (length xs)))"
  by (simp add: np_getitem_def np_index_def)

lemma np_setitem_nonneg:
  "0 \<le> i \<Longrightarrow> i < int (length xs) \<Longrightarrow> np_setitem xs i v = Inr (xs[nat i := v])"
  by (simp add: np_setitem_def np_index_def)

lemma np_setitem_beyond:
  "int (length xs) \<le> i \<Longrightarrow> np_setitem xs i v = Inl IndexError"
  by (simp add: np_setitem_def np_index_def)

lemma np_setitem_length:
  "np_setitem xs i v = Inr ys \<Longrightarrow> length ys = length xs"
  by (auto simp: np_setitem_def np_index_def Let_def split: if_splits)

section \<open>The pseudo-random sequence\<close>

lemma x1_spec_step:
  "0 < k \<Longrightarrow> x1_spec k =
     ((if 3 \<le> k then x1_spec (k - 3) else 0) + (if 31 \<le> k then x1_spec (k - 31) else 0)) mod 2"
  by (subst x1_spec.simps) auto

lemma x1_read:
  assumes "length xs = N" "31 \<le> N" "0 < k" "k < N" "0 < d" "d \<le> 31"
    and "\<forall>i<k. xs ! i = x1_spec i" and "\<forall>i. k \<le> i \<and> i < N \<longrightarrow> xs ! i = 0"
  shows "np_getitem xs (int k - int d) = Inr (if d \<le> k then x1_spec (k - d) else 0)"
proof (cases "d \<le> k")
  case True
  then have "np_getitem xs (int k - int d) = Inr (xs ! nat (int k - int d))"
    using assms by (intro np_getitem_nonneg) auto
  moreover have "nat (int k - int d) = k - d" using True by simp
  ultimately show ?thesis using True assms by simp
next
  case False
  then have "np_getitem xs (int k - int d) = Inr (xs ! nat (int k - int d + int (length xs)))"
    using assms by (intro np_getitem_neg) auto
  moreover have "nat (int k - int d + int (length xs)) = N + k - d" using False assms by simp
  moreover have "k \<le> N + k - d" "N + k - d < N" using False assms by auto
  ultimately show ?thesis using False assms by simp
qed

lemma x1_loop_correct:
  assumes "length xs = N" "31 \<le> N" "0 < k" "k \<le> N"
    and "\<forall>i<k. xs ! i = x1_spec i" and "\<forall>i. k \<le> i \<and> i < N \<longrightarrow> xs ! i = 0"
  shows "x1_loop xs [int k..int N - 1] = Inr (map x1_spec [0..<N])"
  using assms
proof (induction "N - k" arbitrary: k xs)
  case 0
  then have "k = N" by simp
  with 0 have "xs = map x1_spec [0..<N]"
    by (auto simp: list_eq_iff_nth_eq)
  with \<open>k = N\<close> show ?case by simp
next
  case (Suc m)
  then have lt: "k < N" by simp
  let ?v = "x1_spec k"
  have r3: "np_getitem xs (int k - 3) = Inr (if 3 \<le> k then x1_spec (k - 3) else 0)"
    using x1_read [of xs N k 3] Suc.prems lt by simp
  have r31: "np_getitem xs (int k - 31) = Inr (if 31 \<le> k then x1_spec (k - 31) else 0)"
    using x1_read [of xs N k 31] Suc.prems lt by simp
  have w: "np_setitem xs (int k) v = Inr (xs[k := v])" for v
    using np_setitem_nonneg [of "int k" xs v] Suc.prems lt by simp
  have rec: "x1_loop (xs[k := ?v]) [int (Suc k)..int N - 1] = Inr (map x1_spec [0..<N])"
  proof (rule Suc.hyps(1))
    show "m = N - Suc k" using Suc.hyps(2) by simp
    show "\<forall>i<Suc k. xs[k := ?v] ! i = x1_spec i"
      using Suc.prems lt by (auto simp: nth_list_update less_Suc_eq)
    show "\<forall>i. Suc k \<le> i \<and> i < N \<longrightarrow> xs[k := ?v] ! i = 0"
      using Suc.prems by (auto simp: nth_list_update)
  qed (use Suc.prems lt in auto)
  have "[int k..int N - 1] = int k # [int (Suc k)..int N - 1]"
    using lt by (subst upto_rec1) (auto simp: add.commute)
  then show ?case
    using r3 r31 w rec x1_spec_step [of k] Suc.prems(3) by simp
qed


lemma seed_bit: "drop_bit n (c::int) AND 1 = of_bool (bit c n)"
  by (simp add: and_one_eq bit_iff_odd_drop_bit of_bool_odd_eq_mod_2)

lemma x2_init_loop_correct:
  assumes "length xs = N" "31 \<le> N" "k \<le> 31"
    and "\<forall>i<k. xs ! i = x2_seeded c i" and "\<forall>i. k \<le> i \<and> i < N \<longrightarrow> xs ! i = 0"
  shows "x2_init_loop c xs [int k..30] = Inr (map (x2_seeded c) [0..<N])"
  using assms
proof (induction "31 - k" arbitrary: k xs)
  case 0
  then have "k = 31" by simp
  with 0 have "xs = map (x2_seeded c) [0..<N]"
    by (auto simp: list_eq_iff_nth_eq x2_seeded_def)
  with \<open>k = 31\<close> show ?case by simp
next
  case (Suc m)
  then have lt: "k < 31" by simp
  let ?v = "x2_seeded c k"
  have w: "np_setitem xs (int k) v = Inr (xs[k := v])" for v
    using np_setitem_nonneg [of "int k" xs v] Suc.prems lt by simp
  have rec: "x2_init_loop c (xs[k := ?v]) [int (Suc k)..30] = Inr (map (x2_seeded c) [0..<N])"
  proof (rule Suc.hyps(1))
    show "m = 31 - Suc k" using Suc.hyps(2) by simp
    show "\<forall>i<Suc k. xs[k := ?v] ! i = x2_seeded c i"
      using Suc.prems lt by (auto simp: nth_list_update less_Suc_eq)
    show "\<forall>i. Suc k \<le> i \<and> i < N \<longrightarrow> xs[k := ?v] ! i = 0"
      using Suc.prems by (auto simp: nth_list_update)
  qed (use Suc.prems lt in auto)
  have "[int k..30] = int k # [int (Suc k)..30]"
    using lt by (subst upto_rec1) (auto simp: add.commute)
  then show ?case
    using w rec lt by (simp add: seed_bit x2_seeded_def)
qed

lemma x2_spec_seed: "k < 31 \<Longrightarrow> x2_spec c k = x2_seeded c k"
  by (subst x2_spec.simps) (simp add: x2_seeded_def)

lemma x2_spec_step:
  "31 \<le> k \<Longrightarrow> x2_spec c k =
     (x2_spec c (k - 3) + x2_spec c (k - 2) + x2_spec c (k - 1) + x2_spec c (k - 31)) mod 2"
  by (subst x2_spec.simps) simp

lemma x2_read:
  assumes "length xs = N" "k < N" "0 < d" "d \<le> k" and "\<forall>i<k. xs ! i = x2_spec c i"
  shows "np_getitem xs (int k - int d) = Inr (x2_spec c (k - d))"
proof -
  have "np_getitem xs (int k - int d) = Inr (xs ! nat (int k - int d))"
    using assms by (intro np_getitem_nonneg) auto
  moreover have "nat (int k - int d) = k - d" using assms by simp
  ultimately show ?thesis using assms by simp
qed

lemma x2_loop_correct:
  assumes "length xs = N" "31 \<le> k" "k \<le> N" and "\<forall>i<k. xs ! i = x2_spec c i"
  shows "x2_loop xs [int k..int N - 1] = Inr (map (x2_spec c) [0..<N])"
  using assms
proof (induction "N - k" arbitrary: k xs)
  case 0
  then have "k = N" by simp
  with 0 have "xs = map (x2_spec c) [0..<N]"
    by (auto simp: list_eq_iff_nth_eq)
  with \<open>k = N\<close> show ?case by simp
next
  case (Suc m)
  then have lt: "k < N" by simp
  let ?v = "x2_spec c k"
  have r: "np_getitem xs (int k - 3) = Inr (x2_spec c (k - 3))"
    "np_getitem xs (int k - 2) = Inr (x2_spec c (k - 2))"
    "np_getitem xs (int k - 1) = Inr (x2_spec c (k - 1))"
    "np_getitem xs (int k - 31) = Inr (x2_spec c (k - 31))"
    using x2_read [of xs N k 3 c] x2_read [of xs N k 2 c] x2_read [of xs N k 1 c]
      x2_read [of xs N k 31 c] Suc.prems lt by simp_all
  have w: "np_setitem xs (int k) v = Inr (xs[k := v])" for v
    using np_setitem_nonneg [of "int k" xs v] Suc.prems lt by simp
  have rec: "x2_loop (xs[k := ?v]) [int (Suc k)..int N - 1] = Inr (map (x2_spec c) [0..<N])"
  proof (rule Suc.hyps(1))
    show "m = N - Suc k" using Suc.hyps(2) by simp
    show "\<forall>i<Suc k. xs[k := ?v] ! i = x2_spec c i"
      using Suc.prems lt by (auto simp: nth_list_update less_Suc_eq)
  qed (use Suc.prems lt in auto)
  have "[int k..int N - 1] = int k # [int (Suc k)..int N - 1]"
    using lt by (subst upto_rec1) (auto simp: add.commute)
  then show ?case
    using r w rec x2_spec_step [of k c] Suc.prems(2) by simp
qed

lemma generate_prs_eq:
  assumes "0 \<le> L"
  shows "generate_prs c L = Inr (map (prs_spec c) [0..<nat L])"
proof -
  define N where "N = nat L + 31"
  have N: "L + 31 = int N" "31 \<le> N" using assms by (simp_all add: N_def)
  let ?z = "replicate N (0::int)"
  have z: "np_zeros (L + 31) = Inr ?z"
    using N by (simp add: np_zeros_def)
  have s0: "np_setitem ?z 0 1 = Inr (?z[0 := 1])"
    using N by (simp add: np_setitem_nonneg)
  have l1: "x1_loop (?z[0 := 1]) (py_range 1 (L + 31)) = Inr (map x1_spec [0..<N])"
    unfolding py_range_def N(1)
    using x1_loop_correct [of "?z[0 := 1]" N 1] N(2)
    by (simp add: nth_list_update x1_spec.simps [of 0])
  have l2: "x2_init_loop c ?z (py_range 0 31) = Inr (map (x2_seeded c) [0..<N])"
    unfolding py_range_def
    using x2_init_loop_correct [of ?z N 0 c] N(2) by simp
  have l3: "x2_loop (map (x2_seeded c) [0..<N]) (py_range 31 (L + 31))
            = Inr (map (x2_spec c) [0..<N])"
    unfolding py_range_def N(1)
    using x2_loop_correct [of "map (x2_seeded c) [0..<N]" N 31 c] N(2)
    by (simp add: x2_spec_seed)
  have out: "slice_to (map (\<lambda>(a, b). (a + b) mod 2)
               (zip (slice_from (map x1_spec [0..<N]) 31) (slice_from (map (x2_spec c) [0..<N]) 31))) L
             = map (prs_spec c) [0..<nat L]"
    using assms
    by (auto simp: list_eq_iff_nth_eq slice_to_def slice_from_def N_def prs_spec_def add.commute)
  show ?thesis
    unfolding generate_prs_def by (simp add: z s0 l1 l2 l3 out del: upt_Suc)
qed


lemma x2_init_loop_fails:
  "int (length xs) \<in> set ns \<Longrightarrow> \<exists>e. x2_init_loop c xs ns = Inl e"
proof (induction ns arbitrary: xs)
  case Nil
  then show ?case by simp
next
  case (Cons n ns)
  show ?case
  proof (cases "np_setitem xs n (drop_bit (nat n) c AND 1)")
    case (Inl e)
    then show ?thesis by simp
  next
    case (Inr ys)
    then have len: "length ys = length xs" by (rule np_setitem_length)
    have "n \<noteq> int (length xs)"
      using Inr np_setitem_beyond [of xs n] by auto
    with Cons.prems have "int (length ys) \<in> set ns" using len by simp
    from Cons.IH [OF this] Inr show ?thesis by simp
  qed
qed

lemma bind_err_fails: "(\<And>x. \<exists>e. f x = Inl e) \<Longrightarrow> \<exists>e. bind_err m f = Inl e"
  by (cases m) simp_all

lemma generate_prs_negative:
  assumes "L < 0"
  shows "\<exists>e. generate_prs c L = Inl e"
proof (cases "L + 31 < 0")
  case True
  then show ?thesis by (simp add: generate_prs_def np_zeros_def)
next
  case False
  define N where "N = nat (L + 31)"
  have N: "L + 31 = int N" "N < 31" using assms False by (simp_all add: N_def)
  have z: "np_zeros (L + 31) = Inr (replicate N (0::int))"
    using N by (simp add: np_zeros_def)
  have "int (length (replicate N (0::int))) \<in> set (py_range 0 31)"
    using N(2) by (simp add: py_range_def)
  then obtain e where "x2_init_loop c (replicate N 0) (py_range 0 31) = Inl e"
    using x2_init_loop_fails by blast
  then show ?thesis
    unfolding generate_prs_def z by (auto intro!: bind_err_fails)
qed

lemma x1_spec_binary: "x1_spec n = 0 \<or> x1_spec n = 1"
  by (subst (1 2) x1_spec.simps) auto

lemma x2_spec_binary: "x2_spec c n = 0 \<or> x2_spec c n = 1"
  by (subst (1 2) x2_spec.simps) auto

lemma prs_spec_binary: "prs_spec c n = 0 \<or> prs_spec c n = 1"
  by (auto simp: prs_spec_def)

text \<open>
  Claim C3. For every seed \<open>c_init\<close> and every length \<open>L \<ge> 0\<close>, \<open>generate_prs c_init L\<close>
  returns a sequence of length \<open>L\<close> whose element \<open>n\<close> is \<open>(x1[n + 31] + x2[n + 31]) mod 2\<close>,
  where \<open>x1\<close> and \<open>x2\<close> are binary, \<open>x1[0] = 1\<close>, \<open>x1[1] = x1[2] = 0\<close>,
  \<open>x1[n] = (x1[n - 3] + x1[n - 31]) mod 2\<close> for \<open>n \<ge> 3\<close> with a term of negative index taken
  as 0, \<open>x2[n]\<close> is bit \<open>n\<close> of the seed for \<open>n < 31\<close>, and
  \<open>x2[n] = (x2[n - 3] + x2[n - 2] + x2[n - 1] + x2[n - 31]) mod 2\<close> for \<open>n \<ge> 31\<close>.
\<close>

theorem generate_prs_recurrence:
  assumes "0 \<le> L"
  shows "\<exists>out. generate_prs c_init L = Inr out \<and> length out = nat L
           \<and> (\<forall>n<nat L. out ! n = (x1_spec (n + 31) + x2_spec c_init (n + 31)) mod 2)
           \<and> x1_spec 0 = 1 \<and> x1_spec 1 = 0 \<and> x1_spec 2 = 0
           \<and> (\<forall>n\<ge>3. x1_spec n
                 = (x1_spec (n - 3) + (if n < 31 then 0 else x1_spec (n - 31))) mod 2)
           \<and> (\<forall>n<31. x2_spec c_init n = (if bit c_init n then 1 else 0))
           \<and> (\<forall>n\<ge>31. x2_spec c_init n
                 = (x2_spec c_init (n - 3) + x2_spec c_init (n - 2) + x2_spec c_init (n - 1)
                    + x2_spec c_init (n - 31)) mod 2)
           \<and> (\<forall>n. x1_spec n \<in> {0, 1} \<and> x2_spec c_init n \<in> {0, 1})"
proof -
  have a: "x1_spec 0 = 1" "x1_spec 1 = 0" "x1_spec 2 = 0"
    by (subst x1_spec.simps, simp)+
  have b: "\<forall>n\<ge>3. x1_spec n
             = (x1_spec (n - 3) + (if n < 31 then 0 else x1_spec (n - 31))) mod 2"
    by (subst x1_spec.simps) auto
  have c: "\<forall>n<31. x2_spec c_init n = (if bit c_init n then 1 else 0)"
    by (subst x2_spec.simps) auto
  have d: "\<forall>n\<ge>31. x2_spec c_init n
             = (x2_spec c_init (n - 3) + x2_spec c_init (n - 2) + x2_spec c_init (n - 1)
                + x2_spec c_init (n - 31)) mod 2"
    using x2_spec_step by blast
  have e: "\<forall>n. x1_spec n \<in> {0, 1} \<and> x2_spec c_init n \<in> {0, 1}"
    using x1_spec_binary x2_spec_binary by auto
  have "generate_prs c_init L = Inr (map (prs_spec c_init) [0..<nat L])"
    using assms by (rule generate_prs_eq)
  moreover have "\<forall>n<nat L. map (prs_spec c_init) [0..<nat L] ! n
                    = (x1_spec (n + 31) + x2_spec c_init (n + 31)) mod 2"
    by (simp add: prs_spec_def)
  moreover have "length (map (prs_spec c_init) [0..<nat L]) = nat L"
    by simp
  ultimately show ?thesis using a b c d e by blast
qed

theorem generate_prs_recurrence_witness:
  "\<exists>out. generate_prs 5 2 = Inr out \<and> length out = 2
     \<and> (\<forall>n<2. out ! n = (x1_spec (n + 31) + x2_spec 5 (n + 31)) mod 2)"
  using generate_prs_recurrence [of 2 5] by auto

text \<open>
  Claim C7. For every seed and lengths \<open>0 \<le> L' < L\<close>: \<open>generate_prs seed L\<close> returns \<open>L\<close>
  elements and \<open>generate_prs seed L'\<close> returns \<open>L'\<close>; every element of \<open>generate_prs seed L\<close> is
  0 or 1; two evaluations at the same seed and length are equal; and the first \<open>L'\<close> elements
  of \<open>generate_prs seed L\<close> are, position by position, those of \<open>generate_prs seed L'\<close>.
\<close>

theorem generate_prs_binary_prefix:
  assumes "0 \<le> L'" "L' < L"
  shows "\<exists>out out'. generate_prs seed L = Inr out \<and> length out = nat L
           \<and> generate_prs seed L' = Inr out' \<and> length out' = nat L'
           \<and> (\<forall>b\<in>set out. b = 0 \<or> b = 1)
           \<and> (\<forall>n<nat L'. out ! n = out' ! n)
           \<and> take (nat L') out = out'
           \<and> (\<forall>r r'. generate_prs seed L = r \<and> generate_prs seed L = r' \<longrightarrow> r = r')"
proof -
  have 1: "generate_prs seed L = Inr (map (prs_spec seed) [0..<nat L])"
    using assms by (intro generate_prs_eq) simp
  have 2: "generate_prs seed L' = Inr (map (prs_spec seed) [0..<nat L'])"
    using assms by (intro generate_prs_eq)
  have 3: "\<forall>b\<in>set (map (prs_spec seed) [0..<nat L]). b = 0 \<or> b = 1"
    using prs_spec_binary by auto
  have 4: "take (nat L') (map (prs_spec seed) [0..<nat L]) = map (prs_spec seed) [0..<nat L']"
    using assms by (simp add: take_map min_def)
  have 5: "length (map (prs_spec seed) [0..<nat L]) = nat L"
    "length (map (prs_spec seed) [0..<nat L']) = nat L'"
    by simp_all
  have 6: "\<forall>n<nat L'. map (prs_spec seed) [0..<nat L] ! n = map (prs_spec seed) [0..<nat L'] ! n"
    using assms by simp
  show ?thesis
    by (intro exI [of _ "map (prs_spec seed) [0..<nat L]"]
          exI [of _ "map (prs_spec seed) [0..<nat L']"] conjI 1 2 3 4 5 6) simp
qed

theorem generate_prs_binary_prefix_witness:
  "\<exists>out out'. generate_prs 5 3 = Inr out \<and> length out = 3
     \<and> generate_prs 5 1 = Inr out' \<and> length out' = 1
     \<and> (\<forall>b\<in>set out. b = 0 \<or> b = 1) \<and> out ! 0 = out' ! 0 \<and> take 1 out = out'"
  using generate_prs_binary_prefix [of 1 3 5] by auto

text \<open>
  Claim C8. \<open>generate_prs seed L\<close> raises when \<open>L\<close> is negative, and returns normally
  for every seed and every \<open>L \<ge> 0\<close>.
\<close>

theorem generate_prs_raises_iff_negative:
  "(L < 0 \<longrightarrow> (\<exists>e. generate_prs seed L = Inl e))
   \<and> (0 \<le> L \<longrightarrow> (\<exists>out. generate_prs seed L = Inr out))"
  using generate_prs_negative [of L seed] generate_prs_eq [of L seed] by auto

theorem generate_prs_raises_iff_negative_witness:
  "(\<exists>e. generate_prs 5 (- 1) = Inl e) \<and> (\<exists>out. generate_prs 5 3 = Inr out)"
  using generate_prs_raises_iff_negative [of "- 1" 5] generate_prs_raises_iff_negative [of 3 5]
  by simp

section \<open>Configuration accessors and hopping\<close>

text \<open>
  Claim C6. \<open>bandwidth_in_subcarriers\<close> returns
  \<open>min ((srs_bandwidth + 1) * 12 * 2 ^ max bandwidth_config 0) (n_ul_rb * 12)\<close>; with
  \<open>bandwidth_config = 2\<close>, \<open>srs_bandwidth = 0\<close> and \<open>n_ul_rb = 50\<close> that is
  \<open>min (1 * 12 * 4) 600 = 48\<close>.
\<close>

theorem bandwidth_in_subcarriers_formula:
  "bandwidth_in_subcarriers cfg
     = min ((srs_bandwidth cfg + 1) * 12 * 2 ^ nat (max (bandwidth_config cfg) 0))
           (n_ul_rb cfg * 12)
   \<and> (bandwidth_config cfg = 2 \<and> srs_bandwidth cfg = 0 \<and> n_ul_rb cfg = 50
        \<longrightarrow> bandwidth_in_subcarriers cfg = min (1 * 12 * 4) 600
            \<and> bandwidth_in_subcarriers cfg = 48)"
  by (simp add: bandwidth_in_subcarriers_def Let_def)

theorem bandwidth_in_subcarriers_formula_witness:
  "bandwidth_in_subcarriers ue0 = 48"
  using bandwidth_in_subcarriers_formula [of ue0] by (simp add: ue0_def)

text \<open>
  Claim C9. With group hopping disabled, \<open>group_and_sequence_hopping\<close> returns
  \<open>f_gh = 0\<close> and \<open>sequence_number = group_number = cell_id mod 30\<close> at every slot index,
  whatever \<open>sequence_hopping_enabled\<close> is: setting that flag does not change the result.
\<close>

theorem hopping_without_group_hopping:
  assumes "\<not> group_hopping_enabled cfg"
  shows "group_and_sequence_hopping cfg slot
           = Inr \<lparr>group_number = cell_id cfg mod 30, sequence_number = cell_id cfg mod 30,
                  f_gh = 0, f_ss = cell_id cfg mod 30\<rparr>
         \<and> group_and_sequence_hopping (cfg\<lparr>sequence_hopping_enabled := b\<rparr>) slot
           = group_and_sequence_hopping cfg slot"
  using assms by (simp add: group_and_sequence_hopping_def Let_def)

theorem hopping_without_group_hopping_witness:
  "group_and_sequence_hopping ue2 8
     = Inr \<lparr>group_number = 12, sequence_number = 12, f_gh = 0, f_ss = 12\<rparr>
   \<and> group_and_sequence_hopping (ue2\<lparr>sequence_hopping_enabled := False\<rparr>) 8
     = group_and_sequence_hopping ue2 8"
  using hopping_without_group_hopping [of ue2 8 False] by (simp add: ue2_def)

text \<open>
  The eight reads of the generator sum succeed when the array holds the eight bits from
  \<open>start\<close> on.
\<close>

lemma hop_sum_eq:
  assumes "0 \<le> start" "start + 8 \<le> int (length c)"
  shows "hop_sum c start (py_range 0 8) 0 = Inr (\<Sum>i = 0..<8. c ! (nat start + i) * 2 ^ i)"
proof -
  have g: "np_getitem c (start + int i) = Inr (c ! (nat start + i))" if "i < 8" for i
    using np_getitem_nonneg [of "start + int i" c] assms that by (simp add: nat_add_distrib)
  have r: "py_range 0 8 = map int [0, 1, 2, 3, 4, 5, 6, 7]"
    by (simp add: py_range_def upto.simps [of 0] upto.simps [of 1])
  have s: "{0..<8::nat} = {0, 1, 2, 3, 4, 5, 6, 7}" by auto
  show ?thesis
    unfolding r s
    using g [of 0] g [of 1] g [of 2] g [of 3] g [of 4] g [of 5] g [of 6] g [of 7] 
    by (simp add: push_bit_eq_mult)
qed

text \<open>
  Claim C2. For a slot index \<open>slot \<ge> 0\<close>, with \<open>c\<close> the \<open>8 * (slot + 1)\<close> bits that
  \<open>generate_prs\<close> returns for the seed
  \<open>((slot div 2 + 1) * (cell_id + 1) * 2 ^ 9 + cell_id) mod 2 ^ 31\<close>:
  \<open>f_ss = cell_id mod 30\<close>; \<open>f_gh\<close> is 0 when group hopping is disabled and
  \<open>(\<Sum>i<8. c[8 * slot + i] * 2 ^ i) mod 30\<close> otherwise;
  \<open>group_number = (f_ss + f_gh) mod 30\<close>; \<open>sequence_number\<close> is \<open>group_number\<close> when sequence
  hopping is disabled and \<open>(group_number + f_gh mod 30) mod 30\<close> otherwise.
\<close>

theorem group_and_sequence_hopping_formula:
  assumes "0 \<le> slot"
  shows "\<exists>c. generate_prs (((slot div 2 + 1) * (cell_id cfg + 1) * 2 ^ 9 + cell_id cfg) mod 2 ^ 31)
                 (8 * (slot + 1)) = Inr c
           \<and> length c = nat (8 * (slot + 1))
           \<and> (let f_ss' = cell_id cfg mod 30;
                   f_gh' = (if group_hopping_enabled cfg
                            then (\<Sum>i = 0..<8. c ! (nat (8 * slot) + i) * 2 ^ i) mod 30 else 0);
                   group_number' = (f_ss' + f_gh') mod 30;
                   sequence_number' = (if sequence_hopping_enabled cfg
                                       then (group_number' + f_gh' mod 30) mod 30
                                       else group_number')
               in group_and_sequence_hopping cfg slot
                    = Inr \<lparr>group_number = group_number', sequence_number = sequence_number',
                           f_gh = f_gh', f_ss = f_ss'\<rparr>)"
proof -
  let ?seed = "((slot div 2 + 1) * (cell_id cfg + 1) * 2 ^ 9 + cell_id cfg) mod 2 ^ 31"
  let ?c = "map (prs_spec ?seed) [0..<nat (8 * (slot + 1))]"
  define S where "S = (\<Sum>i = 0..<8. ?c ! (nat (8 * slot) + i) * 2 ^ i)"
  have c: "generate_prs ?seed (8 * (slot + 1)) = Inr ?c"
    using assms by (intro generate_prs_eq) simp
  have len: "length ?c = nat (8 * (slot + 1))" by simp
  have h: "hop_sum ?c (8 * slot) (py_range 0 8) 0 = Inr S"
    unfolding S_def using assms by (intro hop_sum_eq) simp_all
  have main: "let f_ss' = cell_id cfg mod 30;
            f_gh' = (if group_hopping_enabled cfg then S mod 30 else 0);
            group_number' = (f_ss' + f_gh') mod 30;
            sequence_number' = (if sequence_hopping_enabled cfg
                                then (group_number' + f_gh' mod 30) mod 30
                                else group_number')
        in group_and_sequence_hopping cfg slot
             = Inr \<lparr>group_number = group_number', sequence_number = sequence_number',
                    f_gh = f_gh', f_ss = f_ss'\<rparr>"
    unfolding group_and_sequence_hopping_def Let_def c h bind_err_Inr by simp
  show ?thesis
    by (intro exI [of _ ?c] conjI c len main [unfolded S_def])
qed

theorem group_and_sequence_hopping_formula_witness:
  "\<exists>c. generate_prs 512 16 = Inr c \<and> length c = 16
     \<and> group_and_sequence_hopping ue0 1
         = Inr \<lparr>group_number = (\<Sum>i = 0..<8. c ! (8 + i) * 2 ^ i) mod 30,
                sequence_number = (\<Sum>i = 0..<8. c ! (8 + i) * 2 ^ i) mod 30,
                f_gh = (\<Sum>i = 0..<8. c ! (8 + i) * 2 ^ i) mod 30, f_ss = 0\<rparr>"
  using group_and_sequence_hopping_formula [of 1 ue0] by (simp add: ue0_def Let_def)

section \<open>The comb mapping\<close>

text \<open>
  The comb loop never raises on a grid of \<open>n\<close> bins: every pair whose index lands in
  \<open>[0, n)\<close> is written at its index, and a bin that is the index of no pair keeps its value.
\<close>

lemma comb_loop_result:
  assumes "length grid = nat n" "distinct (map fst ps)" "sp \<noteq> 0"
  shows "\<exists>g. comb_loop grid k0 sp n ps = Inr g \<and> length g = length grid
           \<and> (\<forall>(m, v)\<in>set ps. 0 \<le> k0 + m * sp \<and> k0 + m * sp < n \<longrightarrow> g ! nat (k0 + m * sp) = v)
           \<and> (\<forall>j<length grid. (\<forall>(m, v)\<in>set ps. int j \<noteq> k0 + m * sp) \<longrightarrow> g ! j = grid ! j)"
  using assms
proof (induction ps arbitrary: grid)
  case Nil
  then show ?case by simp
next
  case (Cons p ps)
  obtain m v where p: "p = (m, v)" by (cases p)
  let ?k = "k0 + m * sp"
  have fresh: "k0 + m' * sp \<noteq> ?k" if "(m', v') \<in> set ps" for m' v'
  proof -
    have "m' \<noteq> m" using Cons.prems(2) that p by force
    then show ?thesis using \<open>sp \<noteq> 0\<close> by simp
  qed
  have d: "distinct (map fst ps)" using Cons.prems(2) by simp
  show ?case
  proof (cases "0 \<le> ?k \<and> ?k < n")
    case True
    let ?grid = "grid[nat ?k := v]"
    have w: "np_setitem grid ?k v = Inr ?grid"
      using True Cons.prems(1) by (intro np_setitem_nonneg) auto
    have "length ?grid = nat n" using Cons.prems(1) by simp
    from Cons.IH [OF this d \<open>sp \<noteq> 0\<close>]
    obtain g where g: "comb_loop ?grid k0 sp n ps = Inr g" "length g = length ?grid"
      "\<forall>(m, v)\<in>set ps. 0 \<le> k0 + m * sp \<and> k0 + m * sp < n \<longrightarrow> g ! nat (k0 + m * sp) = v"
      "\<forall>j<length ?grid. (\<forall>(m, v)\<in>set ps. int j \<noteq> k0 + m * sp) \<longrightarrow> g ! j = ?grid ! j"
      by blast
    have run: "comb_loop grid k0 sp n (p # ps) = Inr g"
      using True w g(1) by (simp add: p Let_def)
    have len: "length g = length grid" using g(2) by simp
    have kl: "nat ?k < length grid" using True Cons.prems(1) by auto
    have "\<forall>(m', v')\<in>set ps. int (nat ?k) \<noteq> k0 + m' * sp"
      using fresh True by force
    then have head: "g ! nat ?k = v"
      using g(4) kl by simp
    have filled: "\<forall>(m, v)\<in>set (p # ps). 0 \<le> k0 + m * sp \<and> k0 + m * sp < n
                    \<longrightarrow> g ! nat (k0 + m * sp) = v"
      using head g(3) by (auto simp: p)
    have rest: "\<forall>j<length grid. (\<forall>(m, v)\<in>set (p # ps). int j \<noteq> k0 + m * sp)
                  \<longrightarrow> g ! j = grid ! j"
    proof (intro allI impI)
      fix j assume j: "j < length grid" "\<forall>(m, v)\<in>set (p # ps). int j \<noteq> k0 + m * sp"
      then have "j \<noteq> nat ?k" using True by (auto simp: p)
      moreover have "g ! j = ?grid ! j" using g(4) j by auto
      ultimately show "g ! j = grid ! j" by simp
    qed
    show ?thesis using run len filled rest by blast
  next
    case False
    from Cons.IH [OF Cons.prems(1) d \<open>sp \<noteq> 0\<close>]
    obtain g where g: "comb_loop grid k0 sp n ps = Inr g" "length g = length grid"
      "\<forall>(m, v)\<in>set ps. 0 \<le> k0 + m * sp \<and> k0 + m * sp < n \<longrightarrow> g ! nat (k0 + m * sp) = v"
      "\<forall>j<length grid. (\<forall>(m, v)\<in>set ps. int j \<noteq> k0 + m * sp) \<longrightarrow> g ! j = grid ! j"
      by blast
    have run: "comb_loop grid k0 sp n (p # ps) = Inr g"
      unfolding p comb_loop.simps Let_def if_not_P [OF False] by (rule g(1))
    have filled: "\<forall>(m, v)\<in>set (p # ps). 0 \<le> k0 + m * sp \<and> k0 + m * sp < n
                    \<longrightarrow> g ! nat (k0 + m * sp) = v"
      using False g(3) by (auto simp: p)
    have rest: "\<forall>j<length grid. (\<forall>(m, v)\<in>set (p # ps). int j \<noteq> k0 + m * sp)
                  \<longrightarrow> g ! j = grid ! j"
      using g(4) by auto
    show ?thesis using run g(2) filled rest by blast
  qed
qed

lemma py_enumerate_fst: "map fst (py_enumerate xs) = map int [0..<length xs]"
  by (simp add: py_enumerate_def)

lemma py_enumerate_set: "set (py_enumerate xs) = {(int m, xs ! m) | m. m < length xs}"
proof (intro set_eqI iffI)
  fix p assume "p \<in> set (py_enumerate xs)"
  then obtain i where "i < length xs" "p = (map int [0..<length xs] ! i, xs ! i)"
    unfolding py_enumerate_def set_zip by auto
  then show "p \<in> {(int m, xs ! m) | m. m < length xs}" by auto
next
  fix p assume "p \<in> {(int m, xs ! m) | m. m < length xs}"
  then obtain m where m: "m < length xs" "p = (int m, xs ! m)" by auto
  show "p \<in> set (py_enumerate xs)"
    unfolding py_enumerate_def in_set_zip using m by (intro exI [of _ m]) simp
qed

lemma py_enumerate_distinct: "distinct (map fst (py_enumerate xs))"
  by (simp add: py_enumerate_fst distinct_map inj_on_def)

lemma comb_mapping_result:
  fixes seq :: "complex list" and cfg :: SRSConfig and n :: int
  assumes "0 \<le> n"
  defines "k0 \<equiv> n div 2 - (int (length seq) div 2) * 2 + transmission_comb cfg"
  shows "\<exists>g. comb_mapping seq cfg n = Inr (g, k0) \<and> length g = nat n
           \<and> (\<forall>m<length seq. 0 \<le> k0 + 2 * int m \<and> k0 + 2 * int m < n
                 \<longrightarrow> g ! nat (k0 + 2 * int m) = seq ! m)
           \<and> (\<forall>j<nat n. (\<forall>m<length seq. int j \<noteq> k0 + 2 * int m) \<longrightarrow> g ! j = 0)"
proof -
  let ?z = "replicate (nat n) (0::complex)"
  have z: "np_zeros n = Inr ?z" using assms by (simp add: np_zeros_def)
  from comb_loop_result [of ?z n "py_enumerate seq" 2 k0]
  obtain g where g: "comb_loop ?z k0 2 n (py_enumerate seq) = Inr g" "length g = length ?z"
    "\<forall>(m, v)\<in>set (py_enumerate seq). 0 \<le> k0 + m * 2 \<and> k0 + m * 2 < n \<longrightarrow> g ! nat (k0 + m * 2) = v"
    "\<forall>j<length ?z. (\<forall>(m, v)\<in>set (py_enumerate seq). int j \<noteq> k0 + m * 2) \<longrightarrow> g ! j = ?z ! j"
    using py_enumerate_distinct by auto
  have run: "comb_mapping seq cfg n = Inr (g, k0)"
    unfolding comb_mapping_def z bind_err_Inr Let_def comb_spacing_def k0_def [symmetric]
    by (simp add: g(1))
  have filled: "\<forall>m<length seq. 0 \<le> k0 + 2 * int m \<and> k0 + 2 * int m < n
                 \<longrightarrow> g ! nat (k0 + 2 * int m) = seq ! m"
    using g(3) by (auto simp: py_enumerate_set mult.commute)
  have rest: "\<forall>j<nat n. (\<forall>m<length seq. int j \<noteq> k0 + 2 * int m) \<longrightarrow> g ! j = 0"
    using g(4) by (auto simp: py_enumerate_set mult.commute)
  show ?thesis using run g(2) filled rest by simp
qed


lemma nonzero_bins_card: "nonzero_bins g = card {j. j < length g \<and> g ! j \<noteq> 0}"
  by (simp add: nonzero_bins_def length_filter_conv_card)

lemma nonzero_bins_ifftshift: "nonzero_bins (np_fft_ifftshift g) = nonzero_bins g"
proof -
  let ?k = "length g div 2"
  have "filter (\<lambda>z. z \<noteq> 0) g
          = filter (\<lambda>z. z \<noteq> 0) (take ?k g) @ filter (\<lambda>z. z \<noteq> 0) (drop ?k g)"
    by (metis append_take_drop_id filter_append)
  then show ?thesis
    by (simp add: nonzero_bins_def np_fft_ifftshift_def Let_def)
qed

lemma comb_count:
  fixes seq :: "complex list"
  assumes len: "length g = nat n"
    and filled: "\<forall>m<length seq. 0 \<le> k0 + 2 * int m \<and> k0 + 2 * int m < n
                   \<longrightarrow> g ! nat (k0 + 2 * int m) = seq ! m"
    and rest: "\<forall>j<nat n. (\<forall>m<length seq. int j \<noteq> k0 + 2 * int m) \<longrightarrow> g ! j = 0"
  shows "nonzero_bins g
           = card {m. m < length seq \<and> 0 \<le> k0 + 2 * int m \<and> k0 + 2 * int m < n \<and> seq ! m \<noteq> 0}"
proof -
  let ?A = "{m. m < length seq \<and> 0 \<le> k0 + 2 * int m \<and> k0 + 2 * int m < n \<and> seq ! m \<noteq> 0}"
  let ?f = "\<lambda>m. nat (k0 + 2 * int m)"
  have "{j. j < length g \<and> g ! j \<noteq> 0} = ?f ` ?A"
  proof (intro set_eqI iffI)
    fix j assume "j \<in> {j. j < length g \<and> g ! j \<noteq> 0}"
    then have j: "j < nat n" "g ! j \<noteq> 0" using len by auto
    with rest obtain m where m: "m < length seq" "int j = k0 + 2 * int m" by blast
    then have "0 \<le> k0 + 2 * int m" "k0 + 2 * int m < n" using j(1) by linarith+
    moreover have "j = ?f m" using m(2) by linarith
    moreover from this calculation filled m(1) have "g ! j = seq ! m" by simp
    ultimately show "j \<in> ?f ` ?A" using m(1) j(2) by auto
  next
    fix j assume "j \<in> ?f ` ?A"
    then obtain m where m: "m < length seq" "0 \<le> k0 + 2 * int m" "k0 + 2 * int m < n"
      "seq ! m \<noteq> 0" "j = ?f m" by auto
    then have "g ! j = seq ! m" using filled by simp
    moreover have "j < length g" using m len by auto
    ultimately show "j \<in> {j. j < length g \<and> g ! j \<noteq> 0}" using m(4) by simp
  qed
  moreover have "inj_on ?f ?A"
    by (auto simp: inj_on_def)
  ultimately show ?thesis
    by (simp add: nonzero_bins_card card_image)
qed

lemma card_sub_length_le: "card {m. m < M \<and> P m} \<le> M"
proof -
  have "card {m. m < M \<and> P m} \<le> card {..<M}"
    by (intro card_mono) auto
  then show ?thesis by simp
qed

lemma card_sub_length_less:
  assumes "card {m. m < M \<and> P m} < M"
  shows "\<exists>m<M. \<not> P m"
proof (rule ccontr)
  assume "\<not> (\<exists>m<M. \<not> P m)"
  then have "{m. m < M \<and> P m} = {..<M}" by blast
  then have "card {m. m < M \<and> P m} = M" by (simp only: card_lessThan)
  with assms show False by simp
qed

text \<open>
  Claim C4, amended. For every complex sequence of length \<open>M_sc\<close>, every configuration and
  every \<open>n_fft > 0\<close>, \<open>map_to_frequency_grid\<close> returns
  \<open>k0 = n_fft div 2 - (M_sc div 2) * 2 + transmission_comb\<close> and the rotation by \<open>ifftshift\<close> of a
  grid of \<open>n_fft\<close> bins that holds sequence element \<open>m\<close> at bin \<open>k0 + 2 * m\<close> whenever that
  index is in \<open>[0, n_fft)\<close>, skips the other indices without raising, and is zero at every
  bin that is not such an index. Its number of non-zero bins is the number of non-zero
  sequence elements whose index lands in \<open>[0, n_fft)\<close>: at most \<open>M_sc\<close>, and, when no sequence
  element is zero, exactly \<open>M_sc\<close> or fewer only when some index lands outside \<open>[0, n_fft)\<close>.
  The rotation keeps the number of non-zero bins.
\<close>

theorem map_to_frequency_grid_comb:
  fixes seq :: "complex list"
  assumes "0 < n_fft"
    and "k0 = n_fft div 2 - (int (length seq) div 2) * 2 + transmission_comb cfg"
  shows "\<exists>grid_shifted.
           map_to_frequency_grid seq cfg n_fft = Inr (np_fft_ifftshift grid_shifted, k0)
           \<and> length grid_shifted = nat n_fft
           \<and> (\<forall>m<length seq. 0 \<le> k0 + 2 * int m \<and> k0 + 2 * int m < n_fft
                 \<longrightarrow> grid_shifted ! nat (k0 + 2 * int m) = seq ! m)
           \<and> (\<forall>j<nat n_fft. (\<forall>m<length seq. int j \<noteq> k0 + 2 * int m) \<longrightarrow> grid_shifted ! j = 0)
           \<and> nonzero_bins grid_shifted
               = card {m. m < length seq \<and> 0 \<le> k0 + 2 * int m \<and> k0 + 2 * int m < n_fft
                          \<and> seq ! m \<noteq> 0}
           \<and> nonzero_bins (np_fft_ifftshift grid_shifted) = nonzero_bins grid_shifted
           \<and> nonzero_bins grid_shifted \<le> length seq
           \<and> ((\<forall>m<length seq. seq ! m \<noteq> 0) \<longrightarrow>
                nonzero_bins grid_shifted = length seq
                \<or> (nonzero_bins grid_shifted < length seq
                    \<and> (\<exists>m<length seq. \<not> (0 \<le> k0 + 2 * int m \<and> k0 + 2 * int m < n_fft))))"
proof -
  let ?P = "\<lambda>m. 0 \<le> k0 + 2 * int m \<and> k0 + 2 * int m < n_fft \<and> seq ! m \<noteq> 0"
  from comb_mapping_result [of n_fft seq cfg] assms
  obtain g where g: "comb_mapping seq cfg n_fft = Inr (g, k0)" "length g = nat n_fft"
    "\<forall>m<length seq. 0 \<le> k0 + 2 * int m \<and> k0 + 2 * int m < n_fft
       \<longrightarrow> g ! nat (k0 + 2 * int m) = seq ! m"
    "\<forall>j<nat n_fft. (\<forall>m<length seq. int j \<noteq> k0 + 2 * int m) \<longrightarrow> g ! j = 0"
    by auto
  have run: "map_to_frequency_grid seq cfg n_fft = Inr (np_fft_ifftshift g, k0)"
    by (simp add: map_to_frequency_grid_def g(1))
  have cnt: "nonzero_bins g = card {m. m < length seq \<and> ?P m}"
    using comb_count [OF g(2) g(3) g(4)] by simp
  have le: "nonzero_bins g \<le> length seq"
    unfolding cnt by (rule card_sub_length_le)
  have few: "\<exists>m<length seq. \<not> (0 \<le> k0 + 2 * int m \<and> k0 + 2 * int m < n_fft)"
    if "\<forall>m<length seq. seq ! m \<noteq> 0" "nonzero_bins g \<noteq> length seq"
  proof -
    have "card {m. m < length seq \<and> ?P m} < length seq"
      using le that(2) cnt by simp
    from card_sub_length_less [OF this] that(1) show ?thesis by blast
  qed
  have last: "(\<forall>m<length seq. seq ! m \<noteq> 0) \<longrightarrow>
                nonzero_bins g = length seq
                \<or> (nonzero_bins g < length seq
                    \<and> (\<exists>m<length seq. \<not> (0 \<le> k0 + 2 * int m \<and> k0 + 2 * int m < n_fft)))"
    using few le by (meson le_neq_implies_less)
  show ?thesis
    by (intro exI [of _ g] conjI run g(2) g(3) g(4) nonzero_bins_ifftshift le last)
       (use cnt in simp)
qed


theorem map_to_frequency_grid_comb_witness:
  "\<exists>grid_shifted. map_to_frequency_grid [1, \<i>] ue0 8 = Inr (np_fft_ifftshift grid_shifted, 2)
     \<and> length grid_shifted = 8 \<and> grid_shifted ! 2 = 1 \<and> grid_shifted ! 4 = \<i>
     \<and> nonzero_bins grid_shifted \<le> 2"
proof -
  have h: "0 < (8::int)"
    "2 = 8 div 2 - (int (length [1, \<i>]) div 2) * 2 + transmission_comb ue0"
    by (simp_all add: ue0_def)
  from map_to_frequency_grid_comb [OF h]
  obtain g where g: "map_to_frequency_grid [1, \<i>] ue0 8 = Inr (np_fft_ifftshift g, 2)"
    "length g = nat 8"
    "\<forall>m<length [1, \<i>]. 0 \<le> 2 + 2 * int m \<and> 2 + 2 * int m < 8
       \<longrightarrow> g ! nat (2 + 2 * int m) = [1, \<i>] ! m"
    "nonzero_bins g \<le> length [1, \<i>]"
    by blast
  have "g ! 2 = 1" "g ! 4 = \<i>"
    using g(3) [rule_format, of 0] g(3) [rule_format, of 1] by simp_all
  with g(1,2,4) show ?thesis by (intro exI [of _ g]) simp
qed

text \<open>
  Claim C4 as stated fails for a sequence with a zero element: for \<open>[1, 0]\<close> and
  \<open>n_fft = 8\<close> both indices \<open>2\<close> and \<open>4\<close> land in \<open>[0, 8)\<close>, yet the grid has one non-zero
  bin, not \<open>M_sc = 2\<close>.
\<close>

theorem map_to_frequency_grid_count_counterexample:
  "map_to_frequency_grid [1, 0] ue0 8 = Inr ([0, 0, 0, 0, 0, 0, 1, 0], 2)
   \<and> nonzero_bins [0, 0, 0, 0, 0, 0, 1, 0] = 1
   \<and> length [1, 0 :: complex] = 2
   \<and> (0 :: int) \<le> 2 + 2 * 0 \<and> (2 :: int) + 2 * 0 < 8
   \<and> (0 :: int) \<le> 2 + 2 * 1 \<and> (2 :: int) + 2 * 1 < 8"
  by code_simp

section \<open>The orchestrator\<close>

lemma group_and_sequence_hopping_returns:
  assumes "0 \<le> slot"
  shows "\<exists>hop. group_and_sequence_hopping cfg slot = Inr hop"
proof -
  let ?seed = "((slot div 2 + 1) * (cell_id cfg + 1) * 2 ^ 9 + cell_id cfg) mod 2 ^ 31"
  let ?c = "map (prs_spec ?seed) [0..<nat (8 * (slot + 1))]"
  have c: "generate_prs ?seed (8 * (slot + 1)) = Inr ?c"
    using assms by (intro generate_prs_eq) simp
  define S where "S = (\<Sum>i = 0..<8. ?c ! (nat (8 * slot) + i) * 2 ^ i)"
  have h: "hop_sum ?c (8 * slot) (py_range 0 8) 0 = Inr S"
    unfolding S_def using assms by (intro hop_sum_eq) simp_all
  show ?thesis
    unfolding group_and_sequence_hopping_def Let_def c h bind_err_Inr
    by (cases "group_hopping_enabled cfg") simp_all
qed

lemma length_generate_zadoff_chu: "length (generate_zadoff_chu u N) = nat N"
  by (simp add: generate_zadoff_chu_def)

lemma length_apply_cyclic_shift: "length (apply_cyclic_shift seq a) = length seq"
  by (simp add: apply_cyclic_shift_def)

lemma length_truncated:
  assumes "N < m"
  shows "length (slice_to (generate_zadoff_chu u N) m) = nat N"
  using assms by (auto simp: slice_to_def length_generate_zadoff_chu)

lemma np_fft_ifft_returns: "a \<noteq> [] \<Longrightarrow> \<exists>sig. np_fft_ifft a = Inr sig"
  by (simp add: np_fft_ifft_def Let_def)

lemma length_np_fft_ifftshift: "length (np_fft_ifftshift xs) = length xs"
  by (simp add: np_fft_ifftshift_def Let_def)

text \<open>
  A run of \<open>generate_srs\<close> on an active subframe, with a subframe index \<open>\<ge> 0\<close> and a
  transform size \<open>> 0\<close>: no step raises, and the intermediate values are as the source
  computes them.
\<close>

lemma generate_srs_run:
  assumes "is_active_subframe cfg sf" "0 \<le> sf" "0 < n_fft"
  shows "\<exists>hop grid k0 sig.
           group_and_sequence_hopping cfg (sf * 2) = Inr hop
           \<and> map_to_frequency_grid
                (apply_cyclic_shift
                   (slice_to (generate_zadoff_chu (sequence_number hop) (zc_length cfg))
                      (bandwidth_in_subcarriers cfg))
                   (alpha cfg)) cfg n_fft = Inr (grid, k0)
           \<and> nonzero_bins grid
               \<le> length (slice_to (generate_zadoff_chu (sequence_number hop) (zc_length cfg))
                           (bandwidth_in_subcarriers cfg))
           \<and> np_fft_ifft grid = Inr sig
           \<and> generate_srs cfg sf n_fft
               = Inr (sig,
                      \<lparr>info_subframe_index = sf, info_slot_index = sf * 2,
                       info_root_index = sequence_number hop, info_alpha = alpha cfg,
                       info_m_sc = bandwidth_in_subcarriers cfg,
                       info_comb = transmission_comb cfg, info_n_fft = n_fft, info_k0 = k0,
                       info_hopping = hop\<rparr>)"
proof -
  obtain hop where hop: "group_and_sequence_hopping cfg (sf * 2) = Inr hop"
    using group_and_sequence_hopping_returns [of "sf * 2" cfg] assms(2) by auto
  define tr where "tr = slice_to (generate_zadoff_chu (sequence_number hop) (zc_length cfg))
                          (bandwidth_in_subcarriers cfg)"
  define seq where "seq = apply_cyclic_shift tr (alpha cfg)"
  define k0 where "k0 = n_fft div 2 - (int (length seq) div 2) * 2 + transmission_comb cfg"
  from comb_mapping_result [of n_fft seq cfg] assms(3)
  obtain g where g: "comb_mapping seq cfg n_fft = Inr (g, k0)" "length g = nat n_fft"
    "\<forall>m<length seq. 0 \<le> k0 + 2 * int m \<and> k0 + 2 * int m < n_fft
       \<longrightarrow> g ! nat (k0 + 2 * int m) = seq ! m"
    "\<forall>j<nat n_fft. (\<forall>m<length seq. int j \<noteq> k0 + 2 * int m) \<longrightarrow> g ! j = 0"
    unfolding k0_def by auto
  let ?grid = "np_fft_ifftshift g"
  have run: "map_to_frequency_grid seq cfg n_fft = Inr (?grid, k0)"
    by (simp add: map_to_frequency_grid_def g(1))
  have "nonzero_bins g \<le> length seq"
    unfolding comb_count [OF g(2) g(3) g(4)] by (rule card_sub_length_le)
  then have cnt: "nonzero_bins ?grid \<le> length tr"
    by (simp add: nonzero_bins_ifftshift seq_def length_apply_cyclic_shift)
  have "?grid \<noteq> []"
    using g(2) assms(3) length_np_fft_ifftshift [of g] by auto
  then obtain sig where sig: "np_fft_ifft ?grid = Inr sig"
    using np_fft_ifft_returns by blast
  have srs: "generate_srs cfg sf n_fft
               = Inr (sig,
                      \<lparr>info_subframe_index = sf, info_slot_index = sf * 2,
                       info_root_index = sequence_number hop, info_alpha = alpha cfg,
                       info_m_sc = bandwidth_in_subcarriers cfg,
                       info_comb = transmission_comb cfg, info_n_fft = n_fft, info_k0 = k0,
                       info_hopping = hop\<rparr>)"
    unfolding generate_srs_def Let_def hop bind_err_Inr
      tr_def [symmetric] seq_def [symmetric] run
    using assms(1) sig by simp
  show ?thesis
    using hop run cnt sig srs unfolding seq_def tr_def by blast
qed

text \<open>
  Below 0 the subframe index gives a negative slot index, and with group hopping
  \<open>generate_prs\<close> is asked for a negative length: the run raises, whatever the periodicity.
\<close>

lemma generate_srs_negative_subframe:
  assumes "is_active_subframe cfg sf" "sf < 0" "group_hopping_enabled cfg"
  shows "\<exists>e. generate_srs cfg sf n_fft = Inl e"
proof -
  obtain e where "generate_prs (((sf * 2 div 2 + 1) * (cell_id cfg + 1) * 2 ^ 9 + cell_id cfg)
                    mod 2 ^ 31) (8 * (sf * 2 + 1)) = Inl e"
    using generate_prs_negative [of "8 * (sf * 2 + 1)"] assms(2) by auto
  then have "\<exists>e. group_and_sequence_hopping cfg (sf * 2) = Inl e"
    unfolding group_and_sequence_hopping_def Let_def using assms(3) by simp
  then show ?thesis
    unfolding generate_srs_def Let_def using assms(1) by auto
qed

text \<open>
  Claim C1. For a subframe index \<open>\<ge> 0\<close> (and a transform size \<open>> 0\<close>, as the default 2048 is),
  \<open>generate_srs\<close> raises the \<open>ValueError\<close> of an inactive subframe exactly when
  \<open>subframe_config\<close> is 0 or \<open>subframe_index mod subframe_config\<close> is not 0, and returns a
  signal and a \<open>MappingInfo\<close> otherwise; the message holds the decimal forms of the requested
  subframe index and of the configured periodicity.
\<close>

theorem generate_srs_domain_error:
  assumes "0 \<le> subframe_index" "0 < n_fft"
  shows "(subframe_config cfg = 0 \<or> subframe_index mod subframe_config cfg \<noteq> 0
            \<longrightarrow> generate_srs cfg subframe_index n_fft
                = Inl (ValueError (''Subframe '' @ py_str_int subframe_index
                         @ '' is not active for this UE (T_srs=''
                         @ py_str_int (subframe_config cfg) @ '').'')))
         \<and> (\<not> (subframe_config cfg = 0 \<or> subframe_index mod subframe_config cfg \<noteq> 0)
            \<longrightarrow> (\<exists>signal info. generate_srs cfg subframe_index n_fft = Inr (signal, info)))"
proof (intro conjI impI)
  assume "subframe_config cfg = 0 \<or> subframe_index mod subframe_config cfg \<noteq> 0"
  then have "\<not> is_active_subframe cfg subframe_index"
    by (auto simp: is_active_subframe_def)
  then show "generate_srs cfg subframe_index n_fft
               = Inl (ValueError (''Subframe '' @ py_str_int subframe_index
                        @ '' is not active for this UE (T_srs=''
                        @ py_str_int (subframe_config cfg) @ '').''))"
    by (simp add: generate_srs_def inactive_message_def)
next
  assume "\<not> (subframe_config cfg = 0 \<or> subframe_index mod subframe_config cfg \<noteq> 0)"
  then have "is_active_subframe cfg subframe_index"
    by (auto simp: is_active_subframe_def)
  from generate_srs_run [OF this assms]
  show "\<exists>signal info. generate_srs cfg subframe_index n_fft = Inr (signal, info)"
    by blast
qed

theorem generate_srs_domain_error_witness:
  "valid_config ue0
   \<and> (\<exists>signal info. generate_srs ue0 4 2048 = Inr (signal, info))
   \<and> generate_srs ue0 3 2048
       = Inl (ValueError ''Subframe 3 is not active for this UE (T_srs=2).'')"
proof -
  have "valid_config ue0"
    by (simp add: valid_config_def post_init_def ue0_def)
  moreover have "\<exists>signal info. generate_srs ue0 4 2048 = Inr (signal, info)"
    using generate_srs_domain_error [of 4 2048 ue0] by (simp add: ue0_def)
  moreover have "py_str_int 3 = ''3''" "py_str_int 2 = ''2''"
    by code_simp+
  then have "generate_srs ue0 3 2048
       = Inl (ValueError ''Subframe 3 is not active for this UE (T_srs=2).'')"
    using generate_srs_domain_error [of 3 2048 ue0] by (simp add: ue0_def)
  ultimately show ?thesis by blast
qed

text \<open>
  Claim C10. \<open>generate_srs\<close> does not require \<open>bandwidth_in_subcarriers\<close> to fit in the
  Zadoff-Chu length: when it exceeds \<open>zc_length\<close>, the run still returns, the truncated base
  sequence has only \<open>zc_length\<close> samples, the frequency grid handed to the inverse transform
  has at most \<open>zc_length\<close> non-zero bins, and \<open>m_sc\<close> of the returned \<open>MappingInfo\<close> is the
  larger \<open>bandwidth_in_subcarriers\<close>.
\<close>

theorem generate_srs_truncates_to_zc_length:
  assumes "is_active_subframe cfg sf" "0 \<le> sf" "0 < n_fft"
    and "zc_length cfg < bandwidth_in_subcarriers cfg"
  shows "\<exists>hop grid k0 sig info.
           group_and_sequence_hopping cfg (sf * 2) = Inr hop
           \<and> length (slice_to (generate_zadoff_chu (sequence_number hop) (zc_length cfg))
                       (bandwidth_in_subcarriers cfg)) = nat (zc_length cfg)
           \<and> map_to_frequency_grid
                (apply_cyclic_shift
                   (slice_to (generate_zadoff_chu (sequence_number hop) (zc_length cfg))
                      (bandwidth_in_subcarriers cfg))
                   (alpha cfg)) cfg n_fft = Inr (grid, k0)
           \<and> nonzero_bins grid \<le> nat (zc_length cfg)
           \<and> np_fft_ifft grid = Inr sig
           \<and> generate_srs cfg sf n_fft = Inr (sig, info)
           \<and> info_m_sc info = bandwidth_in_subcarriers cfg
           \<and> zc_length cfg < info_m_sc info"
proof -
  from generate_srs_run [OF assms(1-3)]
  obtain hop grid k0 sig where r:
    "group_and_sequence_hopping cfg (sf * 2) = Inr hop"
    "map_to_frequency_grid
       (apply_cyclic_shift
          (slice_to (generate_zadoff_chu (sequence_number hop) (zc_length cfg))
             (bandwidth_in_subcarriers cfg))
          (alpha cfg)) cfg n_fft = Inr (grid, k0)"
    "nonzero_bins grid
       \<le> length (slice_to (generate_zadoff_chu (sequence_number hop) (zc_length cfg))
                   (bandwidth_in_subcarriers cfg))"
    "np_fft_ifft grid = Inr sig"
    "generate_srs cfg sf n_fft
       = Inr (sig,
              \<lparr>info_subframe_index = sf, info_slot_index = sf * 2,
               info_root_index = sequence_number hop, info_alpha = alpha cfg,
               info_m_sc = bandwidth_in_subcarriers cfg,
               info_comb = transmission_comb cfg, info_n_fft = n_fft, info_k0 = k0,
               info_hopping = hop\<rparr>)"
    by blast
  let ?info = "\<lparr>info_subframe_index = sf, info_slot_index = sf * 2,
               info_root_index = sequence_number hop, info_alpha = alpha cfg,
               info_m_sc = bandwidth_in_subcarriers cfg,
               info_comb = transmission_comb cfg, info_n_fft = n_fft, info_k0 = k0,
               info_hopping = hop\<rparr>"
  have len: "length (slice_to (generate_zadoff_chu (sequence_number hop) (zc_length cfg))
                       (bandwidth_in_subcarriers cfg)) = nat (zc_length cfg)"
    using assms(4) by (rule length_truncated)
  have m: "info_m_sc ?info = bandwidth_in_subcarriers cfg" by simp
  show ?thesis
    by (intro exI [of _ hop] exI [of _ grid] exI [of _ k0] exI [of _ sig] exI [of _ ?info]
        conjI r(1) len r(2) r(3) [unfolded len] r(4) r(5) m) (use assms(4) in simp)
qed

theorem generate_srs_truncates_to_zc_length_witness:
  "valid_config wide_cfg \<and> zc_length wide_cfg = 839 \<and> bandwidth_in_subcarriers wide_cfg = 1200
   \<and> (\<exists>grid sig info. generate_srs wide_cfg 4 2048 = Inr (sig, info)
         \<and> np_fft_ifft grid = Inr sig \<and> nonzero_bins grid \<le> 839 \<and> info_m_sc info = 1200)"
proof -
  have v: "valid_config wide_cfg"
    by (simp add: valid_config_def post_init_def wide_cfg_def)
  have z: "zc_length wide_cfg = 839"
    by (simp add: zc_length_def wide_cfg_def)
  have b: "bandwidth_in_subcarriers wide_cfg = 1200"
    by (simp add: bandwidth_in_subcarriers_def wide_cfg_def Let_def)
  have a: "is_active_subframe wide_cfg 4"
    by (simp add: is_active_subframe_def wide_cfg_def)
  from generate_srs_truncates_to_zc_length [of wide_cfg 4 2048] a z b
  have "\<exists>grid sig info. generate_srs wide_cfg 4 2048 = Inr (sig, info)
         \<and> np_fft_ifft grid = Inr sig \<and> nonzero_bins grid \<le> 839 \<and> info_m_sc info = 1200"
    by fastforce
  with v z b show ?thesis by blast
qed

section \<open>The correlation metric\<close>




lemma f64_square_nonneg: "0 \<le> f64_square x"
  by (simp add: f64_square_def)


lemma np_linalg_norm_nonneg: "0 \<le> np_linalg_norm x"
  unfolding np_linalg_norm_def Let_def
  by (intro real_sqrt_ge_zero add_nonneg_nonneg sum_list_nonneg) (auto simp: f64_square_nonneg)

















end
